theory Spec2Isabelle
  imports Complex_Main "HOL-Library.AList" "HOL-Library.Word"
begin

section \<open>Strings of the host language\<close>

text \<open>
  A string of the source language is a sequence of UTF-16 code units; a code unit is
  modelled as a natural number. \<open>js\<close> turns an ASCII literal into such a string.
\<close>

type_synonym jsstring = "nat list"

definition js :: "string \<Rightarrow> jsstring" where
  "js s = map of_char s"

text \<open>
  \<open>isSpace\<close> is the class \<open>\s\<close> of the regular expression, which is also the set
  that \<open>String.prototype.trim\<close> removes: the white space code points (TAB, VT, FF, SP,
  NBSP, ZWNBSP and the space separators) and the line terminators (LF, CR, LS, PS).
  \<open>isWord\<close> is the class \<open>\w\<close>: ASCII letters, digits and the underscore.
\<close>

definition isSpace :: "nat \<Rightarrow> bool" where
  "isSpace c \<longleftrightarrow>
     c = 9 \<or> c = 10 \<or> c = 11 \<or> c = 12 \<or> c = 13 \<or> c = 32 \<or> c = 160 \<or> c = 5760 \<or>
     (8192 \<le> c \<and> c \<le> 8202) \<or> c = 8232 \<or> c = 8233 \<or> c = 8239 \<or> c = 8287 \<or>
     c = 12288 \<or> c = 65279"

definition isWord :: "nat \<Rightarrow> bool" where
  "isWord c \<longleftrightarrow> (48 \<le> c \<and> c \<le> 57) \<or> (65 \<le> c \<and> c \<le> 90) \<or> c = 95 \<or> (97 \<le> c \<and> c \<le> 122)"

definition trim :: "jsstring \<Rightarrow> jsstring" where
  "trim s = rev (dropWhile isSpace (rev (dropWhile isSpace s)))"

section \<open>The fence pattern of \<open>analyzeAudio\<close>\<close>

text \<open>
  The pattern is \<^verbatim>\<open>/^```(\w*)?\s*\n?(.*?)\n?\s*```$/s\<close>. It is embedded as a backtracking
  matcher in continuation style: every piece of the pattern takes the matcher of the rest
  of the pattern as its continuation \<open>k\<close> and tries its alternatives in the order of the
  pattern's priorities, the first success being the match. A greedy quantifier tries the
  longest repetition first, the lazy one the shortest first. The pattern is anchored at
  both ends and used without the \<open>m\<close> flag, so a match starts at index 0 and ends at
  the end of the string; with the \<open>s\<close> flag the dot matches every code unit.
  The optional group \<open>(\w*)?\<close> visits the same positions in the same order as \<open>\w*\<close>;
  its capture is not used by the program, and only capture 2 is returned.
\<close>

definition fence :: jsstring where
  "fence = [96, 96, 96]"

fun literal :: "jsstring \<Rightarrow> (jsstring \<Rightarrow> 'a option) \<Rightarrow> jsstring \<Rightarrow> 'a option" where
  "literal [] k s = k s"
| "literal (x # xs) k [] = None"
| "literal (x # xs) k (c # cs) = (if c = x then literal xs k cs else None)"

fun starGreedy :: "(nat \<Rightarrow> bool) \<Rightarrow> (jsstring \<Rightarrow> 'a option) \<Rightarrow> jsstring \<Rightarrow> 'a option" where
  "starGreedy p k [] = k []"
| "starGreedy p k (c # cs) =
     (if p c then (case starGreedy p k cs of Some r \<Rightarrow> Some r | None \<Rightarrow> k (c # cs))
      else k (c # cs))"

fun optChar :: "nat \<Rightarrow> (jsstring \<Rightarrow> 'a option) \<Rightarrow> jsstring \<Rightarrow> 'a option" where
  "optChar x k [] = k []"
| "optChar x k (c # cs) =
     (if c = x then (case k cs of Some r \<Rightarrow> Some r | None \<Rightarrow> k (c # cs))
      else k (c # cs))"

fun starLazyAny :: "(jsstring \<Rightarrow> jsstring \<Rightarrow> 'a option) \<Rightarrow> jsstring \<Rightarrow> jsstring \<Rightarrow> 'a option" where
  "starLazyAny k acc [] = k acc []"
| "starLazyAny k acc (c # cs) =
     (case k acc (c # cs) of Some r \<Rightarrow> Some r | None \<Rightarrow> starLazyAny k (acc @ [c]) cs)"

definition atEnd :: "'a \<Rightarrow> jsstring \<Rightarrow> 'a option" where
  "atEnd r s = (if s = [] then Some r else None)"

definition fenceTail :: "jsstring \<Rightarrow> jsstring \<Rightarrow> jsstring option" where
  "fenceTail body = optChar 10 (starGreedy isSpace (literal fence (atEnd body)))"

definition fenceRegex :: "jsstring \<Rightarrow> jsstring option" where
  "fenceRegex =
     literal fence (starGreedy isWord (starGreedy isSpace (optChar 10 (starLazyAny fenceTail []))))"

text \<open>
  Lines 48 to 53 of \<open>analyzeAudio\<close>: trim the response text, match the pattern, and
  replace the text by the trimmed capture 2 when the pattern matched and the capture is
  truthy, that is, not the empty string.
\<close>

definition stripFence :: "jsstring \<Rightarrow> jsstring" where
  "stripFence text =
     (let jsonStr = trim text in
      case fenceRegex jsonStr of
        Some body \<Rightarrow> if body \<noteq> [] then trim body else jsonStr
      | None \<Rightarrow> jsonStr)"

section \<open>The JSON parser of the platform\<close>

text \<open>
  \<open>JSON.parse\<close> is a builtin of the platform, embedded as a recursive descent parser of
  the JSON grammar (ECMA-404): white space is TAB, LF, CR and SP only; a string has no raw
  control character and the escapes \<open>\" \\ \/ \b \f \n \r \t \uXXXX\<close>; a
  number is \<open>-? (0 | [1-9][0-9]*) (. [0-9]+)? ([eE] [+-]? [0-9]+)?\<close>; no trailing
  comma; of two members with the same key the later value wins, at the place of the
  first. A number is kept as the exact rational value of its literal: the rounding of the
  literal to a binary64 is not modelled. Rounding is monotone and 0 and 100 are binary64
  values, so clamping to the range from 0 to 100 commutes with it (a literal that overflows
  to \<open>Infinity\<close> is clamped to 100 on both sides).
  Every parsing function returns the parsed value and the rest of the input, or \<open>None\<close>
  where \<open>JSON.parse\<close> throws a \<open>SyntaxError\<close>.
\<close>

datatype json =
    JNull
  | JBool bool
  | JNumber rat
  | JString jsstring
  | JArray "json list"
  | JObject "(jsstring \<times> json) list"

definition isJsonWs :: "nat \<Rightarrow> bool" where
  "isJsonWs c \<longleftrightarrow> c = 9 \<or> c = 10 \<or> c = 13 \<or> c = 32"

definition skipWs :: "jsstring \<Rightarrow> jsstring" where
  "skipWs = dropWhile isJsonWs"

definition isDigit :: "nat \<Rightarrow> bool" where
  "isDigit c \<longleftrightarrow> 48 \<le> c \<and> c \<le> 57"

definition hexDigit :: "nat \<Rightarrow> nat option" where
  "hexDigit c =
     (if 48 \<le> c \<and> c \<le> 57 then Some (c - 48)
      else if 65 \<le> c \<and> c \<le> 70 then Some (c - 55)
      else if 97 \<le> c \<and> c \<le> 102 then Some (c - 87)
      else None)"

definition hex4 :: "nat \<Rightarrow> nat \<Rightarrow> nat \<Rightarrow> nat \<Rightarrow> nat option" where
  "hex4 a b c d =
     (case (hexDigit a, hexDigit b, hexDigit c, hexDigit d) of
        (Some x, Some y, Some z, Some w) \<Rightarrow> Some (((x * 16 + y) * 16 + z) * 16 + w)
      | _ \<Rightarrow> None)"

definition simpleEscape :: "nat \<Rightarrow> nat option" where
  "simpleEscape e =
     (if e = 34 then Some 34 else if e = 92 then Some 92 else if e = 47 then Some 47
      else if e = 98 then Some 8 else if e = 102 then Some 12 else if e = 110 then Some 10
      else if e = 114 then Some 13 else if e = 116 then Some 9 else None)"

fun parseChars :: "jsstring \<Rightarrow> jsstring \<Rightarrow> (jsstring \<times> jsstring) option" where
  "parseChars acc [] = None"
| "parseChars acc [c] = (if c = 34 then Some (acc, []) else None)"
| "parseChars acc (c # e # r) =
     (if c = 34 then Some (acc, e # r)
      else if c = 92 then
        (if e = 117 then
           (case r of
              h1 # h2 # h3 # h4 # r' \<Rightarrow>
                (case hex4 h1 h2 h3 h4 of
                   Some u \<Rightarrow> parseChars (acc @ [u]) r'
                 | None \<Rightarrow> None)
            | _ \<Rightarrow> None)
         else
           (case simpleEscape e of
              Some x \<Rightarrow> parseChars (acc @ [x]) r
            | None \<Rightarrow> None))
      else if c < 32 then None
      else parseChars (acc @ [c]) (e # r))"

definition digitsValue :: "jsstring \<Rightarrow> nat" where
  "digitsValue ds = foldl (\<lambda>a d. 10 * a + (d - 48)) 0 ds"

definition scale10 :: "rat \<Rightarrow> int \<Rightarrow> rat" where
  "scale10 x e = (if 0 \<le> e then x * 10 ^ nat e else x / 10 ^ nat (- e))"

definition parseInt :: "jsstring \<Rightarrow> (jsstring \<times> jsstring) option" where
  "parseInt s =
     (case s of
        [] \<Rightarrow> None
      | d # r \<Rightarrow>
          if d = 48 then Some ([d], r)
          else if isDigit d then Some (takeWhile isDigit s, dropWhile isDigit s)
          else None)"

definition parseFrac :: "jsstring \<Rightarrow> (jsstring \<times> jsstring) option" where
  "parseFrac s =
     (case s of
        [] \<Rightarrow> Some ([], s)
      | c # r \<Rightarrow>
          if c = 46 then
            (if takeWhile isDigit r = [] then None
             else Some (takeWhile isDigit r, dropWhile isDigit r))
          else Some ([], s))"

definition parseSign :: "jsstring \<Rightarrow> bool \<times> jsstring" where
  "parseSign s =
     (case s of
        [] \<Rightarrow> (False, s)
      | c # r \<Rightarrow> if c = 45 then (True, r) else if c = 43 then (False, r) else (False, s))"

definition parseExp :: "jsstring \<Rightarrow> (int \<times> jsstring) option" where
  "parseExp s =
     (case s of
        [] \<Rightarrow> Some (0, s)
      | c # r \<Rightarrow>
          if c = 101 \<or> c = 69 then
            (case parseSign r of
               (neg, r1) \<Rightarrow>
                 if takeWhile isDigit r1 = [] then None
                 else Some ((if neg then - int (digitsValue (takeWhile isDigit r1))
                             else int (digitsValue (takeWhile isDigit r1))),
                            dropWhile isDigit r1))
          else Some (0, s))"

definition parseNumber :: "jsstring \<Rightarrow> (rat \<times> jsstring) option" where
  "parseNumber s =
     (case s of
        [] \<Rightarrow> None
      | c # r \<Rightarrow>
          (case parseInt (if c = 45 then r else s) of
             None \<Rightarrow> None
           | Some (ds, s1) \<Rightarrow>
               (case parseFrac s1 of
                  None \<Rightarrow> None
                | Some (fs, s2) \<Rightarrow>
                    (case parseExp s2 of
                       None \<Rightarrow> None
                     | Some (e, s3) \<Rightarrow>
                         Some ((if c = 45 then - 1 else 1) *
                               scale10 (of_nat (digitsValue (ds @ fs))) (e - int (length fs)),
                               s3)))))"

lemma skipWs_length: "length (skipWs s) \<le> length s"
  by (simp add: skipWs_def length_dropWhile_le)

lemma skipWs_Cons_length: "skipWs s = c # r \<Longrightarrow> length r < length s"
  using skipWs_length[of s] by simp

lemma parseChars_shorter:
  "parseChars acc s = Some (str, r) \<Longrightarrow> length r < length s"
proof (induction acc s rule: parseChars.induct)
  case (1 acc)
  then show ?case by simp
next
  case (2 acc c)
  then show ?case by (simp split: if_splits)
next
  case (3 acc c e r0)
  show ?case
  proof (cases "c = 34")
    case True
    then show ?thesis using 3(4) by auto
  next
    case nq: False
    show ?thesis
    proof (cases "c = 92")
      case bs: True
      show ?thesis
      proof (cases "e = 117")
        case u: True
        obtain h1 h2 h3 h4 r' v where r0: "r0 = h1 # h2 # h3 # h4 # r'"
          and hx: "hex4 h1 h2 h3 h4 = Some v"
          and rec: "parseChars (acc @ [v]) r' = Some (str, r)"
          using 3(4) nq bs u by (auto split: list.splits option.splits)
        have "length r < length r'"
          using 3(1)[OF nq bs u _ refl refl refl hx rec] r0 by simp
        then show ?thesis using r0 by simp
      next
        case nu: False
        obtain x where se: "simpleEscape e = Some x"
          and rec: "parseChars (acc @ [x]) r0 = Some (str, r)"
          using 3(4) nq bs nu by (auto split: option.splits)
        have "length r < length r0" using 3(2)[OF nq bs nu se rec] .
        then show ?thesis by simp
      qed
    next
      case nb: False
      have c32: "\<not> c < 32" and rec: "parseChars (acc @ [c]) (e # r0) = Some (str, r)"
        using 3(4) nq nb by (auto split: if_splits)
      have "length r < length (e # r0)" using 3(3)[OF nq nb c32 rec] .
      then show ?thesis by simp
    qed
  qed
qed

text \<open>
  The three parsers of values, of the elements of an array and of the members of an
  object call each other. The tests \<open>length rest < length s\<close> after a parsed value make
  the recursion well founded; a parser that succeeds always returns a shorter rest (lemma
  \<open>parse_shorter\<close> below), so these tests never fail.
\<close>

function parseValue :: "jsstring \<Rightarrow> (json \<times> jsstring) option"
  and parseElements :: "json list \<Rightarrow> jsstring \<Rightarrow> (json \<times> jsstring) option"
  and parseMembers :: "(jsstring \<times> json) list \<Rightarrow> jsstring \<Rightarrow> (json \<times> jsstring) option"
where
  "parseValue [] = None"
| "parseValue (c # cs) =
     (if c = 123 then
        (if skipWs cs \<noteq> [] \<and> hd (skipWs cs) = 125 then Some (JObject [], tl (skipWs cs))
         else parseMembers [] (skipWs cs))
      else if c = 91 then
        (if skipWs cs \<noteq> [] \<and> hd (skipWs cs) = 93 then Some (JArray [], tl (skipWs cs))
         else parseElements [] (skipWs cs))
      else if c = 34 then map_option (\<lambda>(str, r). (JString str, r)) (parseChars [] cs)
      else if c = 116 then map_option (\<lambda>r. (JBool True, r)) (literal (js ''rue'') Some cs)
      else if c = 102 then map_option (\<lambda>r. (JBool False, r)) (literal (js ''alse'') Some cs)
      else if c = 110 then map_option (\<lambda>r. (JNull, r)) (literal (js ''ull'') Some cs)
      else map_option (\<lambda>(x, r). (JNumber x, r)) (parseNumber (c # cs)))"
| "parseElements acc s =
     (case parseValue s of
        None \<Rightarrow> None
      | Some (v, rest) \<Rightarrow>
          if length rest < length s then
            (case skipWs rest of
               [] \<Rightarrow> None
             | d # r \<Rightarrow>
                 if d = 44 then parseElements (acc @ [v]) (skipWs r)
                 else if d = 93 then Some (JArray (acc @ [v]), r)
                 else None)
          else None)"
| "parseMembers acc [] = None"
| "parseMembers acc (q # cs) =
     (if q = 34 then
        (case parseChars [] cs of
           None \<Rightarrow> None
         | Some (key, r1) \<Rightarrow>
             (case skipWs r1 of
                [] \<Rightarrow> None
              | colon # r2 \<Rightarrow>
                  if colon = 58 then
                    (case parseValue (skipWs r2) of
                       None \<Rightarrow> None
                     | Some (v, rest) \<Rightarrow>
                         if length rest < length (skipWs r2) then
                           (case skipWs rest of
                              [] \<Rightarrow> None
                            | d # r \<Rightarrow>
                                if d = 44 then parseMembers (AList.update key v acc) (skipWs r)
                                else if d = 125 then Some (JObject (AList.update key v acc), r)
                                else None)
                         else None)
                  else None))
      else None)"
  by pat_completeness auto

termination
proof (relation "measure (\<lambda>x. case x of
    Inl s \<Rightarrow> 2 * length s
  | Inr (Inl (acc, s)) \<Rightarrow> 2 * length s + 1
  | Inr (Inr (acc, s)) \<Rightarrow> 2 * length s + 1)", goal_cases)
  case 1 show ?case by simp
next
  case (2 c cs) show ?case using skipWs_length[of cs] by simp
next
  case (3 c cs) show ?case using skipWs_length[of cs] by simp
next
  case (4 acc s) show ?case by simp
next
  case (5 acc s x2 v rest d r)
  then show ?case using skipWs_Cons_length[of rest d r] skipWs_length[of r] by simp
next
  case (6 acc q cs x2 key r1 colon r2)
  then show ?case
    using parseChars_shorter[of "[]" cs key r1] skipWs_Cons_length[of r1 colon r2] skipWs_length[of r2]
    by simp
next
  case (7 acc q cs x2 key r1 colon r2 x2a v rest d r)
  then show ?case
    using parseChars_shorter[of "[]" cs key r1] skipWs_Cons_length[of r1 colon r2] skipWs_length[of r2]
      skipWs_Cons_length[of rest d r] skipWs_length[of r]
    by simp
qed

definition jsonParse :: "jsstring \<Rightarrow> json option" where
  "jsonParse s =
     (case parseValue (skipWs s) of
        None \<Rightarrow> None
      | Some (v, rest) \<Rightarrow> if skipWs rest = [] then Some v else None)"

section \<open>Validation and clamping\<close>

text \<open>
  What the \<open>try\<close> block of \<open>analyzeAudio\<close> can throw: the \<open>SyntaxError\<close> of
  \<open>JSON.parse\<close>, the \<open>TypeError\<close> of a property read on \<open>null\<close> or
  \<open>undefined\<close>, an \<open>Error\<close> with its message, or a value that is no \<open>Error\<close>
  (only a rejected request can bring one). The messages of the first two are chosen by the
  engine and are not modelled. The handler turns a thrown \<open>Error\<close> \<open>e\<close> into a new
  \<open>Error\<close> with the message \<open>API call failed:\<close> followed by the message of \<open>e\<close>
  (\<open>ApiCallFailed e\<close>) and everything else into the error of the unknown failure.
\<close>

datatype thrown = SyntaxError | TypeError | Error string | NonError

datatype failure = ApiCallFailed thrown | UnknownFailure

record Analysis =
  name :: jsstring
  confidence :: rat

record AnalysisResult =
  language :: Analysis
  accent :: Analysis

text \<open>
  \<open>getProp v k\<close> is the property read \<open>v.k\<close>, where \<open>None\<close> stands for
  \<open>undefined\<close>: it throws on \<open>null\<close> and \<open>undefined\<close>, looks the key up in an
  object, and is \<open>undefined\<close> on a boolean, a number, a string and an array, which
  have none of the four properties that the program reads (\<open>language\<close>, \<open>accent\<close>,
  \<open>name\<close>, \<open>confidence\<close>). \<open>truthy\<close> is the conversion to a boolean.
\<close>

fun getProp :: "json option \<Rightarrow> jsstring \<Rightarrow> thrown + json option" where
  "getProp None k = Inl TypeError"
| "getProp (Some JNull) k = Inl TypeError"
| "getProp (Some (JObject members)) k = Inr (map_of members k)"
| "getProp (Some v) k = Inr None"

fun truthy :: "json option \<Rightarrow> bool" where
  "truthy None = False"
| "truthy (Some JNull) = False"
| "truthy (Some (JBool b)) = b"
| "truthy (Some (JNumber x)) = (x \<noteq> 0)"
| "truthy (Some (JString s)) = (s \<noteq> [])"
| "truthy (Some (JArray xs)) = True"
| "truthy (Some (JObject members)) = True"

text \<open>
  \<open>readSection parsedData key\<close> evaluates, from left to right and with the short
  circuit of \<open>||\<close>, the three tests that the validation makes of one section:
  \<open>!parsedData.key\<close>, \<open>typeof parsedData.key.name !== 'string'\<close> and
  \<open>typeof parsedData.key.confidence !== 'number'\<close>. It returns \<open>Inr None\<close> when one
  of them holds, the two fields when none holds, and \<open>Inl\<close> what a property read threw.
  \<open>validateAndClamp\<close> is lines 58 to 69: the validation of both sections, the two
  assignments of the clamped confidences, and the returned value. The object that is
  returned may carry further members of the payload; the result keeps the members of the
  type \<open>AnalysisResult\<close>.
\<close>

definition readSection :: "json \<Rightarrow> jsstring \<Rightarrow> thrown + Analysis option" where
  "readSection parsedData key =
     (case getProp (Some parsedData) key of
        Inl e \<Rightarrow> Inl e
      | Inr section \<Rightarrow>
          if \<not> truthy section then Inr None
          else
            (case getProp section (js ''name'') of
               Inl e \<Rightarrow> Inl e
             | Inr (Some (JString n)) \<Rightarrow>
                 (case getProp section (js ''confidence'') of
                    Inl e \<Rightarrow> Inl e
                  | Inr (Some (JNumber c)) \<Rightarrow> Inr (Some \<lparr>name = n, confidence = c\<rparr>)
                  | Inr _ \<Rightarrow> Inr None)
             | Inr _ \<Rightarrow> Inr None))"

definition clampConfidence :: "rat \<Rightarrow> rat" where
  "clampConfidence c = max 0 (min 100 c)"

definition invalidStructure :: thrown where
  "invalidStructure = Error ''Invalid JSON structure received from API.''"

definition validateAndClamp :: "json \<Rightarrow> thrown + AnalysisResult" where
  "validateAndClamp parsedData =
     (case readSection parsedData (js ''language'') of
        Inl e \<Rightarrow> Inl e
      | Inr None \<Rightarrow> Inl invalidStructure
      | Inr (Some l) \<Rightarrow>
          (case readSection parsedData (js ''accent'') of
             Inl e \<Rightarrow> Inl e
           | Inr None \<Rightarrow> Inl invalidStructure
           | Inr (Some a) \<Rightarrow>
               Inr \<lparr>language = l\<lparr>confidence := clampConfidence (confidence l)\<rparr>,
                    accent = a\<lparr>confidence := clampConfidence (confidence a)\<rparr>\<rparr>))"

text \<open>
  \<open>normalize\<close> is lines 48 to 69, \<open>catchAll\<close> the handler of lines 71 to 77, and
  \<open>responseNormalizer\<close> the two together: what \<open>analyzeAudio\<close> does with the text of
  a response.
\<close>

definition normalize :: "jsstring \<Rightarrow> thrown + AnalysisResult" where
  "normalize text =
     (case jsonParse (stripFence text) of
        None \<Rightarrow> Inl SyntaxError
      | Some parsedData \<Rightarrow> validateAndClamp parsedData)"

definition catchAll :: "thrown + 'a \<Rightarrow> failure + 'a" where
  "catchAll r =
     (case r of
        Inl NonError \<Rightarrow> Inl UnknownFailure
      | Inl e \<Rightarrow> Inl (ApiCallFailed e)
      | Inr x \<Rightarrow> Inr x)"

definition responseNormalizer :: "jsstring \<Rightarrow> failure + AnalysisResult" where
  "responseNormalizer text = catchAll (normalize text)"

text \<open>
  The shape that the specification requires of the parsed value, stated from its words:
  an object containing a \<open>language\<close> object and an \<open>accent\<close> object, each having a
  \<open>name\<close> field of string type and a \<open>confidence\<close> field of numeric type.
\<close>

fun isAnalysisField :: "json option \<Rightarrow> bool" where
  "isAnalysisField (Some (JObject members)) =
     (case (map_of members (js ''name''), map_of members (js ''confidence'')) of
        (Some (JString n), Some (JNumber c)) \<Rightarrow> True
      | _ \<Rightarrow> False)"
| "isAnalysisField _ = False"

fun hasShape :: "json \<Rightarrow> bool" where
  "hasShape (JObject members) =
     (isAnalysisField (map_of members (js ''language'')) \<and>
      isAnalysisField (map_of members (js ''accent'')))"
| "hasShape _ = False"

section \<open>The provider call\<close>

text \<open>
  \<open>analyzeAudio\<close> awaits one reply of the provider: the request is rejected with a
  thrown value, or it is answered with a response whose \<open>text\<close> may be undefined
  (reading \<open>response.text.trim()\<close> then throws a \<open>TypeError\<close>). Everything thrown inside
  the \<open>try\<close> block goes through the same handler.
\<close>

datatype providerOutcome = Rejected thrown | Responded "jsstring option"

definition analyzeAudio :: "providerOutcome \<Rightarrow> failure + AnalysisResult" where
  "analyzeAudio outcome =
     catchAll (case outcome of
                 Rejected e \<Rightarrow> Inl e
               | Responded None \<Rightarrow> Inl TypeError
               | Responded (Some text) \<Rightarrow> normalize text)"

section \<open>The recording controller\<close>

text \<open>
  The component \<open>App\<close> as a state machine. Its state is the React state
  (\<open>recordingState\<close>, \<open>analysisResult\<close>, \<open>error\<close>), the chunk list of
  \<open>audioChunksRef\<close>, the number of calls of \<open>startRecording\<close> that wait for
  \<open>getUserMedia\<close>, the state of the recorder that \<open>mediaRecorderRef\<close> holds, the number
  of recorders on which \<open>stop()\<close> was called and whose events are still to come, the blobs
  that file readers are reading (in the order in which the reads were started), and two logs
  that the program does not have: every value passed to \<open>setRecordingState\<close>, in order,
  and every call of \<open>analyzeAudio\<close> with the audio it was given. The visualizer only
  renders; of its setup only whether it throws is kept.

  An event is a click on a button, possible only in the states in which \<open>renderContent\<close>
  renders the button, or a callback of the platform: the settling of one pending
  \<open>getUserMedia\<close> request, the \<open>dataavailable\<close> and \<open>stop\<close> events of a recorder
  that was stopped, and the end of a read. \<open>startRecording\<close> itself does not look at
  \<open>recordingState\<close>: the start button stays rendered while a request is pending, so a
  second click starts a second request, and a request may settle in any state. A recorder is
  started without a time slice, so it delivers its data when \<open>stop()\<close> was called on it; a
  recorder that \<open>mediaRecorderRef\<close> no longer holds is never stopped by the program.
\<close>

datatype RecordingState = StateIdle | StateRecording | StateProcessing | StateResult | StateError

datatype message = Text string | FailedToAnalyze failure

datatype recorderState = NoRecorder | RecorderActive | RecorderInactive

type_synonym blob = "8 word list"

record App =
  recordingState :: RecordingState
  analysisResult :: "AnalysisResult option"
  error :: "message option"
  audioChunks :: "blob list"
  pendingRequests :: nat
  recorder :: recorderState
  stoppingRecorders :: nat
  reading :: "blob list"
  stateLog :: "RecordingState list"
  providerCalls :: "blob list"

definition initialApp :: App where
  "initialApp =
     \<lparr>recordingState = StateIdle, analysisResult = None, error = None, audioChunks = [],
      pendingRequests = 0, recorder = NoRecorder, stoppingRecorders = 0, reading = [],
      stateLog = [], providerCalls = []\<rparr>"

datatype setupOutcome = SetupOk | SetupThrows

datatype micOutcome = MicDenied | MicGranted setupOutcome

datatype event =
    ClickStart
  | MicSettled micOutcome
  | ClickStop
  | DataAvailable blob
  | RecorderStop
  | ReaderLoadEnd providerOutcome
  | ClickReset

definition setRecordingState :: "RecordingState \<Rightarrow> App \<Rightarrow> App" where
  "setRecordingState s a = a\<lparr>recordingState := s, stateLog := stateLog a @ [s]\<rparr>"

definition handleReset :: "App \<Rightarrow> App" where
  "handleReset a =
     (setRecordingState StateIdle a)\<lparr>analysisResult := None, error := None, audioChunks := []\<rparr>"

definition processAudio :: "App \<Rightarrow> App" where
  "processAudio a =
     (if length (audioChunks a) = 0 then
        setRecordingState StateError
          (a\<lparr>error := Some (Text ''No audio was recorded. Please try again.'')\<rparr>)
      else
        (setRecordingState StateProcessing a)
          \<lparr>error := None, reading := reading a @ [concat (audioChunks a)], audioChunks := []\<rparr>)"

definition onLoadEnd :: "blob \<Rightarrow> providerOutcome \<Rightarrow> App \<Rightarrow> App" where
  "onLoadEnd audioBlob outcome a =
     (case analyzeAudio outcome of
        Inr res \<Rightarrow>
          setRecordingState StateResult
            (a\<lparr>providerCalls := providerCalls a @ [audioBlob], analysisResult := Some res\<rparr>)
      | Inl err \<Rightarrow>
          setRecordingState StateError
            (a\<lparr>providerCalls := providerCalls a @ [audioBlob],
               error := Some (FailedToAnalyze err)\<rparr>))"

definition microphoneDenied :: message where
  "microphoneDenied =
     Text (''Microphone access was denied. Please allow microphone '' @
           ''access in your browser settings to use this app.'')"

text \<open>
  \<open>startRecording\<close> up to its \<open>await\<close>, and its continuation when the request has
  settled. A rejected request (\<open>MicDenied\<close>, which also stands for a recorder that
  cannot be created or started) goes to the \<open>catch\<close> branch at once. A granted one creates
  and starts the recorder and sets the state \<open>recording\<close>; when the visualizer setup that
  follows throws, the \<open>catch\<close> branch sets the state \<open>error\<close> while the new recorder
  goes on recording.
\<close>

definition startRecording :: "App \<Rightarrow> App" where
  "startRecording a = a\<lparr>pendingRequests := pendingRequests a + 1\<rparr>"

definition startRecordingResumed :: "micOutcome \<Rightarrow> App \<Rightarrow> App" where
  "startRecordingResumed outcome a =
     (case outcome of
        MicDenied \<Rightarrow> setRecordingState StateError (a\<lparr>error := Some microphoneDenied\<rparr>)
      | MicGranted SetupOk \<Rightarrow>
          (setRecordingState StateRecording (a\<lparr>recorder := RecorderActive\<rparr>))\<lparr>error := None\<rparr>
      | MicGranted SetupThrows \<Rightarrow>
          setRecordingState StateError
            ((setRecordingState StateRecording (a\<lparr>recorder := RecorderActive\<rparr>))
               \<lparr>error := Some microphoneDenied\<rparr>))"

definition stopRecording :: "App \<Rightarrow> App" where
  "stopRecording a =
     (if recorder a = RecorderActive
      then a\<lparr>recorder := RecorderInactive, stoppingRecorders := stoppingRecorders a + 1\<rparr>
      else a)"

fun step :: "event \<Rightarrow> App \<Rightarrow> App" where
  "step ClickStart a =
     (if recordingState a = StateIdle then startRecording a else a)"
| "step (MicSettled outcome) a =
     (if 0 < pendingRequests a
      then startRecordingResumed outcome (a\<lparr>pendingRequests := pendingRequests a - 1\<rparr>)
      else a)"
| "step ClickStop a =
     (if recordingState a = StateRecording then stopRecording a else a)"
| "step (DataAvailable chunk) a =
     (if 0 < stoppingRecorders a then a\<lparr>audioChunks := audioChunks a @ [chunk]\<rparr> else a)"
| "step RecorderStop a =
     (if 0 < stoppingRecorders a
      then processAudio (a\<lparr>stoppingRecorders := stoppingRecorders a - 1\<rparr>)
      else a)"
| "step (ReaderLoadEnd outcome) a =
     (case reading a of
        [] \<Rightarrow> a
      | audioBlob # others \<Rightarrow> onLoadEnd audioBlob outcome (a\<lparr>reading := others\<rparr>))"
| "step ClickReset a =
     (if recordingState a = StateResult \<or> recordingState a = StateError then handleReset a
      else a)"

definition run :: "event list \<Rightarrow> App \<Rightarrow> App" where
  "run es a = foldl (\<lambda>s e. step e s) a es"





section \<open>Properties of the matcher and of trimming\<close>

lemma literal_append: "literal xs k (xs @ s) = k s"
  by (induction xs) auto

lemma literal_SomeD:
  "literal xs k s = Some r \<Longrightarrow> \<exists>rest. s = xs @ rest \<and> k rest = Some r"
proof (induction xs k s rule: literal.induct)
  case (3 x xs k c cs)
  then show ?case by (auto split: if_splits)
qed auto

lemma starGreedy_first:
  "k (dropWhile p s) = Some r \<Longrightarrow> starGreedy p k s = Some r"
  by (induction s) auto

lemma starGreedy_suffix:
  "starGreedy p k s = Some r \<Longrightarrow> \<exists>n. k (drop n s) = Some r"
proof (induction s)
  case Nil then show ?case by auto
next
  case (Cons c cs)
  show ?case
  proof (cases "p c \<and> starGreedy p k cs = Some r")
    case True
    then obtain n where "k (drop n cs) = Some r" using Cons.IH by blast
    then have "k (drop (Suc n) (c # cs)) = Some r" by simp
    then show ?thesis by blast
  next
    case False
    then have "k (c # cs) = Some r" using Cons.prems by (auto split: if_splits option.splits)
    then have "k (drop 0 (c # cs)) = Some r" by simp
    then show ?thesis by blast
  qed
qed

lemma optChar_suffix:
  assumes "optChar x k s = Some r"
  shows "\<exists>n. k (drop n s) = Some r"
proof (cases s)
  case Nil then show ?thesis using assms by auto
next
  case (Cons c cs)
  show ?thesis
  proof (cases "c = x \<and> k cs = Some r")
    case True
    then have "k (drop 1 s) = Some r" using Cons by simp
    then show ?thesis by blast
  next
    case False
    then have "k s = Some r" using assms Cons by (auto split: if_splits option.splits)
    then have "k (drop 0 s) = Some r" by simp
    then show ?thesis by blast
  qed
qed

lemma starLazyAny_now:
  "k acc s = Some r \<Longrightarrow> starLazyAny k acc s = Some r"
  by (cases s) auto

lemma starLazyAny_suffix:
  "starLazyAny k acc s = Some r \<Longrightarrow> \<exists>n b. k b (drop n s) = Some r"
proof (induction s arbitrary: acc)
  case Nil then show ?case by auto
next
  case (Cons c cs)
  show ?case
  proof (cases "k acc (c # cs)")
    case None
    then have "starLazyAny k (acc @ [c]) cs = Some r" using Cons.prems by simp
    then obtain n b where "k b (drop n cs) = Some r" using Cons.IH by blast
    then have "k b (drop (Suc n) (c # cs)) = Some r" by simp
    then show ?thesis by blast
  next
    case (Some a)
    then have "k acc (drop 0 (c # cs)) = Some r" using Cons.prems by simp
    then show ?thesis by blast
  qed
qed

lemma fence_not_space: "\<not> isSpace 96"
  by (simp add: isSpace_def)

lemma fence_not_word: "\<not> isWord 96"
  by (simp add: isWord_def)

lemma space_not_word: "isSpace c \<Longrightarrow> \<not> isWord c"
  by (auto simp: isSpace_def isWord_def)

lemma newline_space: "isSpace 10"
  by (simp add: isSpace_def)

lemma literal_atEnd:
  "literal xs (atEnd b) r = (if r = xs then Some b else None)"
proof (induction xs arbitrary: r)
  case Nil then show ?case by (simp add: atEnd_def)
next
  case (Cons x xs) then show ?case by (cases r) auto
qed

lemma spaces_then_fence:
  "starGreedy isSpace (literal fence (atEnd b)) r =
     (if dropWhile isSpace r = fence then Some b else None)"
proof (induction r)
  case Nil then show ?case by (simp add: literal_atEnd fence_def)
next
  case (Cons c cs)
  have "isSpace c \<Longrightarrow> c # cs \<noteq> fence" using fence_not_space by (auto simp: fence_def)
  then show ?case using Cons by (simp add: literal_atEnd)
qed

lemma fenceTail_eq:
  "fenceTail b r = (if dropWhile isSpace r = fence then Some b else None)"
proof (cases r)
  case Nil then show ?thesis by (simp add: fenceTail_def spaces_then_fence fence_def)
next
  case (Cons c cs)
  have eq: "starGreedy isSpace (literal fence (atEnd b)) =
      (\<lambda>r. if dropWhile isSpace r = fence then Some b else None)"
    by (rule ext) (rule spaces_then_fence)
  show ?thesis unfolding fenceTail_def eq using Cons newline_space by auto
qed

lemma dropWhile_all: "\<forall>c \<in> set xs. p c \<Longrightarrow> dropWhile p (xs @ ys) = dropWhile p ys"
  by (induction xs) auto

lemma lazy_body:
  assumes "\<forall>c \<in> set sp. isSpace c" "b = [] \<or> \<not> isSpace (last b)"
  shows "starLazyAny fenceTail acc (b @ sp @ fence) = Some (acc @ b)"
  using assms(2)
proof (induction b arbitrary: acc)
  case Nil
  have "dropWhile isSpace (sp @ fence) = fence"
    using assms(1) fence_not_space by (simp add: dropWhile_all fence_def)
  then show ?case by (simp add: starLazyAny_now fenceTail_eq)
next
  case (Cons c b)
  have ns: "\<not> isSpace (last (c # b))" using Cons.prems by simp
  have "dropWhile isSpace ((c # b) @ sp @ fence) \<noteq> fence"
  proof
    assume e: "dropWhile isSpace ((c # b) @ sp @ fence) = fence"
    have "last (c # b) \<in> set (c # b)" by simp
    then have "\<exists>x \<in> set (c # b). \<not> isSpace x" using ns by blast
    then have "dropWhile isSpace ((c # b) @ sp @ fence) = dropWhile isSpace (c # b) @ sp @ fence"
      by (metis dropWhile_append1)
    moreover have "dropWhile isSpace (c # b) \<noteq> []" using \<open>\<exists>x \<in> set (c # b). \<not> isSpace x\<close>
      by (metis dropWhile_eq_Nil_conv)
    ultimately have "length (dropWhile isSpace ((c # b) @ sp @ fence)) > length fence"
      by (simp add: fence_def)
    then show False using e by simp
  qed
  then have "fenceTail acc (c # (b @ sp @ fence)) = None" by (simp add: fenceTail_eq)
  moreover have "b = [] \<or> \<not> isSpace (last b)" using Cons.prems by (cases b) auto
  ultimately show ?case using Cons.IH[of "acc @ [c]"] by simp
qed

lemma dropWhile_hd: "xs = [] \<or> \<not> p (hd xs) \<Longrightarrow> dropWhile p xs = xs"
  by (cases xs) auto

lemma fenceRegex_fenced:
  assumes tag: "\<forall>c \<in> set tag. isWord c"
    and sp: "\<forall>c \<in> set sp. isSpace c"
    and sp2: "\<forall>c \<in> set sp2. isSpace c"
    and b: "b = [] \<or> (\<not> isSpace (hd b) \<and> \<not> isSpace (last b))"
    and w: "sp = [] \<longrightarrow> b = [] \<or> \<not> isWord (hd b)"
  shows "fenceRegex (fence @ tag @ sp @ b @ sp2 @ fence) = Some b"
proof -
  let ?k4 = "starLazyAny fenceTail []"
  let ?k3 = "optChar 10 ?k4"
  let ?k2 = "starGreedy isSpace ?k3"
  let ?rest = "sp @ b @ sp2 @ fence"
  have k2: "?k2 ?rest = Some b"
  proof (cases b)
    case Nil
    have "dropWhile isSpace ?rest = fence"
      using Nil sp sp2 fence_not_space by (simp add: dropWhile_all fence_def)
    moreover have "?k4 fence = Some []" using lazy_body[of "[]" "[]" "[]"] by simp
    then have "?k3 fence = Some b" using Nil by (simp add: fence_def)
    ultimately show ?thesis by (simp add: starGreedy_first)
  next
    case (Cons c cs)
    then have c: "\<not> isSpace c" using b by auto
    then have "dropWhile isSpace ?rest = b @ sp2 @ fence"
      using Cons sp by (simp add: dropWhile_all)
    moreover have "?k4 (b @ sp2 @ fence) = Some b"
      using lazy_body[OF sp2, of b "[]"] b by auto
    then have "?k3 (b @ sp2 @ fence) = Some b" using Cons c newline_space by auto
    ultimately show ?thesis by (simp add: starGreedy_first)
  qed
  have "?rest = [] \<or> \<not> isWord (hd ?rest)"
  proof (cases sp)
    case (Cons c cs) then show ?thesis using sp space_not_word by auto
  next
    case Nil
    show ?thesis
    proof (cases b)
      case (Cons c cs) then show ?thesis using w Nil by auto
    next
      case Nil2: Nil
      show ?thesis using Nil Nil2 sp2 space_not_word fence_not_word
        by (cases sp2) (auto simp: fence_def)
    qed
  qed
  then have "dropWhile isWord (tag @ ?rest) = ?rest"
    using tag by (simp only: dropWhile_all dropWhile_hd)
  then have "starGreedy isWord ?k2 (tag @ ?rest) = Some b"
    using k2 by (simp add: starGreedy_first)
  then show ?thesis by (simp add: fenceRegex_def literal_append)
qed

lemma fenceRegex_SomeD:
  assumes "fenceRegex s = Some b"
  shows "\<exists>m. s = fence @ m @ fence"
proof -
  obtain r1 where s: "s = fence @ r1"
    and 1: "starGreedy isWord (starGreedy isSpace (optChar 10 (starLazyAny fenceTail []))) r1 = Some b"
    using literal_SomeD[OF assms[unfolded fenceRegex_def]] by blast
  obtain n1 where 2: "starGreedy isSpace (optChar 10 (starLazyAny fenceTail [])) (drop n1 r1) = Some b"
    using starGreedy_suffix[OF 1] by blast
  obtain n2 where 3: "optChar 10 (starLazyAny fenceTail []) (drop n2 (drop n1 r1)) = Some b"
    using starGreedy_suffix[OF 2] by blast
  obtain n3 where 4: "starLazyAny fenceTail [] (drop n3 (drop n2 (drop n1 r1))) = Some b"
    using optChar_suffix[OF 3] by blast
  obtain n4 b' where 5: "fenceTail b' (drop n4 (drop n3 (drop n2 (drop n1 r1)))) = Some b"
    using starLazyAny_suffix[OF 4] by blast
  let ?u = "drop (n4 + n3 + n2 + n1) r1"
  have "fenceTail b' ?u = Some b" using 5 by (simp add: add.commute add.left_commute)
  then have "dropWhile isSpace ?u = fence" by (simp add: fenceTail_eq split: if_splits)
  then have "?u = takeWhile isSpace ?u @ fence" by (metis takeWhile_dropWhile_id)
  then have "r1 = (take (n4 + n3 + n2 + n1) r1 @ takeWhile isSpace ?u) @ fence"
    by (metis append_take_drop_id append.assoc)
  then show ?thesis using s by blast
qed

lemma rev_drop_take:
  "xs = rev (dropWhile p (rev xs)) @ rev (takeWhile p (rev xs))"
  by (metis rev_append rev_rev_ident takeWhile_dropWhile_id)

lemma trim_decomp:
  "\<exists>pre post. s = pre @ trim s @ post \<and> (\<forall>c \<in> set pre. isSpace c) \<and> (\<forall>c \<in> set post. isSpace c)"
proof -
  let ?d = "dropWhile isSpace s"
  have 1: "s = takeWhile isSpace s @ ?d" by simp
  have 2: "?d = trim s @ rev (takeWhile isSpace (rev ?d))"
    unfolding trim_def by (rule rev_drop_take)
  have "s = takeWhile isSpace s @ trim s @ rev (takeWhile isSpace (rev ?d))"
    using 1 2 by metis
  moreover have "\<forall>c \<in> set (takeWhile isSpace s). isSpace c" by (auto dest: set_takeWhileD)
  moreover have "\<forall>c \<in> set (rev (takeWhile isSpace (rev ?d))). isSpace c" by (auto dest: set_takeWhileD)
  ultimately show ?thesis by blast
qed

lemma trim_last: "trim s = [] \<or> \<not> isSpace (last (trim s))"
proof -
  let ?e = "dropWhile isSpace (rev (dropWhile isSpace s))"
  have "?e = [] \<or> \<not> isSpace (hd ?e)" using hd_dropWhile by blast
  then show ?thesis by (auto simp: trim_def last_rev)
qed

lemma trim_hd: "trim s = [] \<or> \<not> isSpace (hd (trim s))"
proof (cases "trim s = []")
  case False
  let ?d = "dropWhile isSpace s"
  have "?d = trim s @ rev (takeWhile isSpace (rev ?d))"
    unfolding trim_def by (rule rev_drop_take)
  then have "hd ?d = hd (trim s)" using False by (metis hd_append2)
  moreover have "?d \<noteq> []"
  proof
    assume "?d = []"
    then have "trim s = []" by (simp only: trim_def rev.simps dropWhile.simps)
    then show False using False by simp
  qed
  then have "\<not> isSpace (hd ?d)" using hd_dropWhile by blast
  ultimately show ?thesis by simp
qed simp

lemma trim_spaces:
  assumes "\<forall>c \<in> set pre. isSpace c" "\<forall>c \<in> set post. isSpace c"
    "m = [] \<or> (\<not> isSpace (hd m) \<and> \<not> isSpace (last m))"
  shows "trim (pre @ m @ post) = m"
proof (cases m)
  case Nil
  have "\<forall>c \<in> set (pre @ post). isSpace c" using assms by auto
  then have "dropWhile isSpace (pre @ post) = []" by (simp only: dropWhile_eq_Nil_conv)
  then have "trim (pre @ [] @ post) = []"
    by (simp only: trim_def append_Nil rev.simps dropWhile.simps)
  then show ?thesis using Nil by (simp only:)
next
  case (Cons c cs)
  have "dropWhile isSpace (pre @ m @ post) = m @ post"
    using assms Cons by (simp add: dropWhile_all)
  moreover have "dropWhile isSpace (rev post @ rev m) = rev m"
  proof -
    have "\<forall>c \<in> set (rev post). isSpace c" using assms(2) by simp
    then have "dropWhile isSpace (rev post @ rev m) = dropWhile isSpace (rev m)"
      by (rule dropWhile_all)
    moreover have "m \<noteq> []" using Cons by simp
    then have "\<not> isSpace (hd (rev m))" using assms(3) by (simp only: hd_rev) simp
    ultimately show ?thesis by (simp add: dropWhile_hd)
  qed
  ultimately show ?thesis by (simp add: trim_def)
qed

lemma trim_fixed: "m = [] \<or> (\<not> isSpace (hd m) \<and> \<not> isSpace (last m)) \<Longrightarrow> trim m = m"
  using trim_spaces[of "[]" "[]" m] by simp

lemma trim_idem: "trim (trim s) = trim s"
proof (cases "trim s = []")
  case True
  have "trim [] = []" by (simp add: trim_def)
  then show ?thesis using True by simp
next
  case False then show ?thesis using trim_hd[of s] trim_last[of s] by (simp add: trim_fixed)
qed

section \<open>Properties of the parser\<close>








section \<open>Evaluation on concrete inputs\<close>

lemma js_Nil [simp]: "js [] = []"
  by (simp add: js_def)

lemma js_Cons [simp]: "js (c # cs) = of_char c # js cs"
  by (simp add: js_def)

lemmas eval_simps = stripFence_def trim_def fenceRegex_def fenceTail_def fence_def atEnd_def
  isSpace_def isWord_def jsonParse_def skipWs_def isJsonWs_def isDigit_def hexDigit_def hex4_def
  simpleEscape_def digitsValue_def scale10_def parseInt_def parseFrac_def parseSign_def
  parseExp_def parseNumber_def readSection_def clampConfidence_def validateAndClamp_def
  normalize_def catchAll_def responseNormalizer_def invalidStructure_def

section \<open>De-fencing\<close>

lemma trim_fenced:
  assumes "list_all isSpace pre" "list_all isSpace post"
  shows "trim (pre @ (fence @ m @ fence) @ post) = fence @ m @ fence"
proof -
  have "hd (fence @ m @ fence) = 96" "last (fence @ m @ fence) = 96"
    by (simp_all add: fence_def)
  then show ?thesis
    using assms fence_not_space by (intro trim_spaces) (auto simp: list_all_iff)
qed

lemma stripFence_body:
  assumes pre: "list_all isSpace pre" and post: "list_all isSpace post"
    and tag: "list_all isWord tag" and sp: "list_all isSpace sp" and sp2: "list_all isSpace sp2"
    and ne: "trim body \<noteq> []"
    and w: "sp \<noteq> [] \<or> \<not> isWord (hd body)"
  shows "stripFence (pre @ fence @ tag @ sp @ body @ sp2 @ fence @ post) = trim body"
proof -
  obtain l t where body: "body = l @ trim body @ t"
    and l: "\<forall>c \<in> set l. isSpace c" and t: "\<forall>c \<in> set t. isSpace c"
    using trim_decomp[of body] by blast
  let ?b = "trim body"
  have hl: "\<not> isSpace (hd ?b) \<and> \<not> isSpace (last ?b)"
    using trim_hd[of body] trim_last[of body] ne by simp
  have w': "sp @ l = [] \<longrightarrow> ?b = [] \<or> \<not> isWord (hd ?b)"
  proof
    assume e: "sp @ l = []"
    then have "body = ?b @ t" using body by simp
    then have "hd body = hd ?b" using ne by (metis hd_append2)
    then show "?b = [] \<or> \<not> isWord (hd ?b)" using w e by simp
  qed
  have m: "fenceRegex (fence @ tag @ (sp @ l) @ ?b @ (t @ sp2) @ fence) = Some ?b"
    using tag sp sp2 l t hl w' by (intro fenceRegex_fenced) (auto simp: list_all_iff)
  have eq: "pre @ fence @ tag @ sp @ body @ sp2 @ fence @ post
      = pre @ (fence @ (tag @ (sp @ l) @ ?b @ (t @ sp2)) @ fence) @ post"
    using body by (metis append.assoc)
  have tr: "trim (pre @ fence @ tag @ sp @ body @ sp2 @ fence @ post)
      = fence @ tag @ (sp @ l) @ ?b @ (t @ sp2) @ fence"
    using trim_fenced[OF pre post, of "tag @ (sp @ l) @ ?b @ (t @ sp2)"] body
    by (simp only: eq append.assoc)
  have m': "fenceRegex (fence @ tag @ sp @ l @ ?b @ t @ sp2 @ fence) = Some ?b"
    using m by simp
  have tr': "trim (pre @ fence @ tag @ sp @ body @ sp2 @ fence @ post)
      = fence @ tag @ sp @ l @ ?b @ t @ sp2 @ fence"
    using tr by simp
  show ?thesis
    using ne by (simp only: stripFence_def tr' m' Let_def option.case trim_idem) simp
qed

lemma stripFence_empty_body:
  assumes pre: "list_all isSpace pre" and post: "list_all isSpace post"
    and tag: "list_all isWord tag" and sp: "list_all isSpace sp"
  shows "stripFence (pre @ fence @ tag @ sp @ fence @ post) = fence @ tag @ sp @ fence"
proof -
  have m: "fenceRegex (fence @ tag @ sp @ [] @ [] @ fence) = Some []"
    using tag sp by (intro fenceRegex_fenced) (auto simp: list_all_iff)
  have tr: "trim (pre @ fence @ tag @ sp @ fence @ post) = fence @ tag @ sp @ fence"
    using trim_fenced[OF pre post, of "tag @ sp"] by simp
  show ?thesis unfolding stripFence_def tr using m by simp
qed

lemma stripFence_no_fence:
  assumes "\<not> (\<exists>m. trim text = fence @ m @ fence)"
  shows "stripFence text = trim text"
proof (cases "fenceRegex (trim text)")
  case None
  then show ?thesis by (simp add: stripFence_def)
next
  case (Some b)
  then show ?thesis using fenceRegex_SomeD assms by blast
qed

text \<open>
  Claim C7. De-fencing is idempotent on text that has no fence: when the pattern does
  not match the trimmed text, de-fencing returns the trimmed text, and de-fencing that
  again returns the same text.
\<close>

theorem stripFence_idempotent_on_unfenced:
  assumes "fenceRegex (trim text) = None"
  shows "stripFence (stripFence text) = stripFence text \<and> stripFence text = trim text"
proof -
  have 1: "stripFence text = trim text" using assms by (simp add: stripFence_def)
  have "stripFence (trim text) = trim text"
    using assms by (simp add: stripFence_def trim_idem)
  then show ?thesis using 1 by simp
qed

theorem stripFence_idempotent_on_unfenced_witness:
  "fenceRegex (trim (js '' {} '')) = None \<and>
   (stripFence (stripFence (js '' {} '')) = stripFence (js '' {} '') \<and>
    stripFence (js '' {} '') = trim (js '' {} ''))"
proof -
  have h: "fenceRegex (trim (js '' {} '')) = None" by (simp add: eval_simps)
  show ?thesis using h stripFence_idempotent_on_unfenced[OF h] by (rule conjI)
qed

lemma jsonParse_fence: "jsonParse (fence @ m) = None"
  by (simp add: jsonParse_def skipWs_def isJsonWs_def fence_def parseNumber_def parseInt_def
      isDigit_def)

text \<open>
  Claim C10. An input that is only a fence, that is, three backticks, an optional word
  token, white space and three backticks (possibly surrounded by white space), is matched
  by the pattern with an empty capture 2; the guard \<open>match && match[2]\<close> then leaves the
  trimmed, still fenced text in place, which is no JSON, so the normalizer fails in the
  parse step. De-fencing changes the trimmed text only when capture 2 is not empty.
\<close>

theorem empty_fence_left_intact:
  assumes "list_all isSpace pre" and "list_all isSpace post"
    and "list_all isWord tag" and "list_all isSpace sp"
  shows "fenceRegex (fence @ tag @ sp @ fence) = Some [] \<and>
         stripFence (pre @ fence @ tag @ sp @ fence @ post) = fence @ tag @ sp @ fence \<and>
         jsonParse (stripFence (pre @ fence @ tag @ sp @ fence @ post)) = None \<and>
         responseNormalizer (pre @ fence @ tag @ sp @ fence @ post) = Inl (ApiCallFailed SyntaxError) \<and>
         (stripFence text \<noteq> trim text \<longrightarrow>
            (\<exists>b. fenceRegex (trim text) = Some b \<and> b \<noteq> [] \<and> stripFence text = trim b))"
proof -
  have m: "fenceRegex (fence @ tag @ sp @ [] @ [] @ fence) = Some []"
    using assms(3,4) by (intro fenceRegex_fenced) (auto simp: list_all_iff)
  have s: "stripFence (pre @ fence @ tag @ sp @ fence @ post) = fence @ tag @ sp @ fence"
    using assms by (rule stripFence_empty_body)
  have p: "jsonParse (fence @ tag @ sp @ fence) = None" by (rule jsonParse_fence)
  have n: "responseNormalizer (pre @ fence @ tag @ sp @ fence @ post) = Inl (ApiCallFailed SyntaxError)"
    by (simp add: responseNormalizer_def normalize_def s p catchAll_def)
  have o: "stripFence text \<noteq> trim text \<longrightarrow>
      (\<exists>b. fenceRegex (trim text) = Some b \<and> b \<noteq> [] \<and> stripFence text = trim b)"
    by (cases "fenceRegex (trim text)") (auto simp: stripFence_def)
  show ?thesis using m s p n o by simp
qed

theorem empty_fence_left_intact_witness:
  "list_all isSpace [] \<and> list_all isSpace [32] \<and> list_all isWord (js ''json'') \<and>
   list_all isSpace [10] \<and>
   stripFence ([] @ fence @ js ''json'' @ [10] @ fence @ [32]) = fence @ js ''json'' @ [10] @ fence \<and>
   responseNormalizer ([] @ fence @ js ''json'' @ [10] @ fence @ [32]) = Inl (ApiCallFailed SyntaxError) \<and>
   stripFence (js ''```{}```'') \<noteq> trim (js ''```{}```'') \<and>
   (\<exists>b. fenceRegex (trim (js ''```{}```'')) = Some b \<and> b \<noteq> [] \<and>
        stripFence (js ''```{}```'') = trim b)"
proof -
  have h1: "list_all isSpace []" by simp
  have h2: "list_all isSpace [32]" by (simp add: isSpace_def)
  have h3: "list_all isWord (js ''json'')" by (simp add: isWord_def)
  have h4: "list_all isSpace [10]" by (simp add: isSpace_def)
  have h5: "stripFence (js ''```{}```'') \<noteq> trim (js ''```{}```'')" by (simp add: eval_simps)
  note r = empty_fence_left_intact[OF h1 h2 h3 h4, of "js ''```{}```''"]
  show ?thesis using h1 h2 h3 h4 h5 r by blast
qed

text \<open>
  Claim C1, as stated, fails on the code in two ways. A fence of four backticks is not
  recognised as a longer fence: the pattern takes three backticks and the surplus ones
  become part of capture 2, so the body \<open>{}\<close> is not what de-fencing returns. A fence
  with an empty body is left as it is instead of being replaced by its (empty) body.
\<close>

theorem stripFence_contract_counterexample:
  "stripFence (js ''````\<newline>{}\<newline>````'') = js ''`\<newline>{}\<newline>`'' \<and>
   stripFence (js ''````\<newline>{}\<newline>````'') \<noteq> js ''{}'' \<and>
   stripFence (js ''```\<newline>```'') = js ''```\<newline>```'' \<and>
   stripFence (js ''```\<newline>```'') \<noteq> []"
  by (simp add: eval_simps)

text \<open>
  Claim C1, amended. When the trimmed input is three backticks, a token of word
  characters (possibly empty), white space, a body whose trimmed text is not empty, white
  space and three backticks, where the body does not continue the token (there is white
  space after the token or the body does not start with a word character), de-fencing
  returns the trimmed body; the body may hold any code units, also newlines and
  backticks. When the trimmed input does not both start and end with three backticks,
  de-fencing returns the trimmed input.
\<close>

theorem stripFence_contract:
  "(list_all isSpace pre \<and> list_all isSpace post \<and> list_all isWord tag \<and>
    list_all isSpace sp \<and> list_all isSpace sp2 \<and> trim body \<noteq> [] \<and>
    (sp = [] \<longrightarrow> \<not> isWord (hd body))
    \<longrightarrow> stripFence (pre @ fence @ tag @ sp @ body @ sp2 @ fence @ post) = trim body) \<and>
   ((\<nexists>m. trim text = fence @ m @ fence) \<longrightarrow> stripFence text = trim text)"
proof (intro conjI impI)
  assume a: "list_all isSpace pre \<and> list_all isSpace post \<and> list_all isWord tag \<and>
    list_all isSpace sp \<and> list_all isSpace sp2 \<and> trim body \<noteq> [] \<and>
    (sp = [] \<longrightarrow> \<not> isWord (hd body))"
  then have "sp \<noteq> [] \<or> \<not> isWord (hd body)" by blast
  then show "stripFence (pre @ fence @ tag @ sp @ body @ sp2 @ fence @ post) = trim body"
    using a by (intro stripFence_body) simp_all
next
  assume "\<nexists>m. trim text = fence @ m @ fence"
  then show "stripFence text = trim text" by (rule stripFence_no_fence)
qed

theorem stripFence_contract_witness:
  "list_all isSpace [32] \<and> list_all isSpace [10] \<and> list_all isWord (js ''json'') \<and>
   trim (js ''{\<newline> \"a\": 1\<newline>}'') \<noteq> [] \<and> [10] \<noteq> ([] :: jsstring) \<and>
   stripFence ([32] @ fence @ js ''json'' @ [10] @ js ''{\<newline> \"a\": 1\<newline>}'' @ [10] @ fence @ [10])
     = trim (js ''{\<newline> \"a\": 1\<newline>}'') \<and>
   (\<nexists>m. trim (js '' {} '') = fence @ m @ fence) \<and>
   stripFence (js '' {} '') = trim (js '' {} '')"
proof -
  let ?body = "js ''{\<newline> \"a\": 1\<newline>}''"
  have h1: "list_all isSpace [32]" by (simp add: isSpace_def)
  have h2: "list_all isSpace [10]" by (simp add: isSpace_def)
  have h3: "list_all isWord (js ''json'')" by (simp add: isWord_def)
  have h4: "trim ?body \<noteq> []" by (simp add: eval_simps)
  have h5: "[10] \<noteq> ([] :: jsstring)" by simp
  have h6: "\<nexists>m. trim (js '' {} '') = fence @ m @ fence" by (simp add: eval_simps)
  note r = stripFence_contract[of "[32]" "[10]" "js ''json''" "[10]" "[10]" ?body "js '' {} ''"]
  have c1: "stripFence ([32] @ fence @ js ''json'' @ [10] @ ?body @ [10] @ fence @ [10]) = trim ?body"
    using r h1 h2 h3 h4 h5 by blast
  have c2: "stripFence (js '' {} '') = trim (js '' {} '')"
    using r h6 by blast
  show ?thesis using h1 h2 h3 h4 h5 h6 c1 c2 by blast
qed

section \<open>Parsing, validation and clamping\<close>












lemma end_to_end_scenario:
  "responseNormalizer (js ''```json\<newline>{\"language\":{\"name\":\"English\",\"confidence\":95},\"accent\":{\"name\":\"American\",\"confidence\":110}}\<newline>```'')
     = Inr \<lparr>language = \<lparr>name = js ''English'', confidence = 95\<rparr>,
            accent = \<lparr>name = js ''American'', confidence = 100\<rparr>\<rparr>"
  by (simp add: eval_simps)

lemma readSection_object:
  "readSection (JObject ms) key =
     Inr (case map_of ms key of
            Some (JObject fs) \<Rightarrow>
              (case (map_of fs (js ''name''), map_of fs (js ''confidence'')) of
                 (Some (JString n), Some (JNumber c)) \<Rightarrow> Some \<lparr>name = n, confidence = c\<rparr>
               | _ \<Rightarrow> None)
          | _ \<Rightarrow> None)"
proof (cases "map_of ms key")
  case None
  then show ?thesis by (simp add: readSection_def)
next
  case (Some x)
  show ?thesis
  proof (cases x)
    case (JObject fs)
    then show ?thesis using Some
      by (simp add: readSection_def split: option.splits json.splits)
  qed (use Some in \<open>simp_all add: readSection_def\<close>)
qed

lemma readSection_isAnalysisField:
  "(\<exists>x. readSection (JObject ms) key = Inr (Some x)) \<longleftrightarrow> isAnalysisField (map_of ms key)"
  unfolding readSection_object
  by (auto split: option.splits json.splits)

lemma readSection_not_object:
  "v \<noteq> JNull \<Longrightarrow> \<forall>ms. v \<noteq> JObject ms \<Longrightarrow> readSection v key = Inr None"
  by (cases v) (simp_all add: readSection_def)

lemma validate_shape:
  assumes "hasShape v"
  shows "\<exists>r. validateAndClamp v = Inr r"
proof -
  obtain ms where v: "v = JObject ms" using assms by (cases v) auto
  have "isAnalysisField (map_of ms (js ''language''))" "isAnalysisField (map_of ms (js ''accent''))"
    using assms v by simp_all
  then obtain l a where "readSection v (js ''language'') = Inr (Some l)"
    "readSection v (js ''accent'') = Inr (Some a)"
    unfolding v readSection_isAnalysisField[symmetric] by blast
  then show ?thesis by (simp add: validateAndClamp_def)
qed

lemma validate_no_shape:
  assumes "v \<noteq> JNull" "\<not> hasShape v"
  shows "validateAndClamp v = Inl invalidStructure"
proof (cases "\<exists>ms. v = JObject ms")
  case False
  then show ?thesis using assms(1) by (simp add: validateAndClamp_def readSection_not_object)
next
  case True
  then obtain ms where v: "v = JObject ms" by blast
  obtain x y where x: "readSection v (js ''language'') = Inr x"
    and y: "readSection v (js ''accent'') = Inr y"
    using v readSection_object by blast
  have "x = None \<or> y = None"
  proof (rule ccontr)
    assume "\<not> ?thesis"
    then obtain l a where la: "x = Some l" "y = Some a" by auto
    have "\<exists>z. readSection (JObject ms) (js ''language'') = Inr (Some z)"
      using x la(1) v by blast
    then have 1: "isAnalysisField (map_of ms (js ''language''))"
      by (simp only: readSection_isAnalysisField)
    have "\<exists>z. readSection (JObject ms) (js ''accent'') = Inr (Some z)"
      using y la(2) v by blast
    then have 2: "isAnalysisField (map_of ms (js ''accent''))"
      by (simp only: readSection_isAnalysisField)
    show False using assms(2) v 1 2 by simp
  qed
  then show ?thesis using x y by (auto simp: validateAndClamp_def split: option.splits)
qed

lemma shape_validation_non_null:
  assumes "v \<noteq> JNull"
  shows "validateAndClamp v = Inl invalidStructure \<longleftrightarrow> \<not> hasShape v"
proof
  assume i: "validateAndClamp v = Inl invalidStructure"
  show "\<not> hasShape v"
  proof
    assume "hasShape v"
    then obtain r where "validateAndClamp v = Inr r" using validate_shape by blast
    then show False using i by simp
  qed
next
  assume "\<not> hasShape v"
  then show "validateAndClamp v = Inl invalidStructure" using assms by (rule validate_no_shape[rotated])
qed

lemma missing_accent_invalid:
  "responseNormalizer (js ''{\"language\":{\"name\":\"English\",\"confidence\":95}}'')
     = Inl (ApiCallFailed invalidStructure)"
  by (simp add: eval_simps)

text \<open>
  Claim C3. When the de-fenced text parses and both sections pass the checks of the
  validation (\<open>readSection\<close> returns the fields it read), the normalizer succeeds and
  each confidence of the result is the parsed one clamped: 0 when it is below 0, 100 when
  it is above 100, and unchanged when it is in the range. No value of a confidence makes
  the normalizer fail.
\<close>

theorem clamping_leniency:
  assumes "jsonParse (stripFence text) = Some v"
    and "readSection v (js ''language'') = Inr (Some l)"
    and "readSection v (js ''accent'') = Inr (Some a)"
  shows "responseNormalizer text =
     Inr \<lparr>language = \<lparr>name = name l,
                        confidence = (if confidence l < 0 then 0
                                      else if 100 < confidence l then 100 else confidence l)\<rparr>,
          accent = \<lparr>name = name a,
                      confidence = (if confidence a < 0 then 0
                                    else if 100 < confidence a then 100 else confidence a)\<rparr>\<rparr>"
proof -
  have c: "clampConfidence x = (if x < 0 then 0 else if 100 < x then 100 else x)" for x
    by (simp add: clampConfidence_def max_def min_def)
  show ?thesis
    using assms
    by (cases l, cases a)
       (simp add: responseNormalizer_def normalize_def validateAndClamp_def catchAll_def c)
qed

theorem clamping_leniency_witness:
  "jsonParse (stripFence (js ''{\"language\":{\"name\":\"x\",\"confidence\":150},\"accent\":{\"name\":\"y\",\"confidence\":-10}}''))
     = Some (JObject [(js ''language'', JObject [(js ''name'', JString (js ''x'')), (js ''confidence'', JNumber 150)]),
                      (js ''accent'', JObject [(js ''name'', JString (js ''y'')), (js ''confidence'', JNumber (- 10))])]) \<and>
   responseNormalizer (js ''{\"language\":{\"name\":\"x\",\"confidence\":150},\"accent\":{\"name\":\"y\",\"confidence\":-10}}'')
     = Inr \<lparr>language = \<lparr>name = js ''x'', confidence = 100\<rparr>,
            accent = \<lparr>name = js ''y'', confidence = 0\<rparr>\<rparr>"
proof -
  let ?text = "js ''{\"language\":{\"name\":\"x\",\"confidence\":150},\"accent\":{\"name\":\"y\",\"confidence\":-10}}''"
  let ?v = "JObject [(js ''language'', JObject [(js ''name'', JString (js ''x'')), (js ''confidence'', JNumber 150)]),
                      (js ''accent'', JObject [(js ''name'', JString (js ''y'')), (js ''confidence'', JNumber (- 10))])]"
  have h1: "jsonParse (stripFence ?text) = Some ?v" by (simp add: eval_simps)
  have h2: "readSection ?v (js ''language'') = Inr (Some \<lparr>name = js ''x'', confidence = 150\<rparr>)"
    by (simp add: readSection_def)
  have h3: "readSection ?v (js ''accent'') = Inr (Some \<lparr>name = js ''y'', confidence = - 10\<rparr>)"
    by (simp add: readSection_def)
  show ?thesis using h1 clamping_leniency[OF h1 h2 h3] by simp
qed

text \<open>
  Claim C4, as stated, fails on the code: the normalizer clamps and never rounds, so a
  confidence that is not integral and lies in the range is returned as it is. The text
  below has the confidence 50.5 (a binary64 value) and the result keeps it.
\<close>

theorem result_invariant_counterexample:
  "responseNormalizer (js ''{\"language\":{\"name\":\"a\",\"confidence\":50.5},\"accent\":{\"name\":\"b\",\"confidence\":7}}'')
     = Inr \<lparr>language = \<lparr>name = js ''a'', confidence = 101 / 2\<rparr>,
            accent = \<lparr>name = js ''b'', confidence = 7\<rparr>\<rparr> \<and>
   (101 / 2 :: rat) \<notin> \<int>"
proof
  show "responseNormalizer (js ''{\"language\":{\"name\":\"a\",\"confidence\":50.5},\"accent\":{\"name\":\"b\",\"confidence\":7}}'')
     = Inr \<lparr>language = \<lparr>name = js ''a'', confidence = 101 / 2\<rparr>,
            accent = \<lparr>name = js ''b'', confidence = 7\<rparr>\<rparr>"
    by (simp add: eval_simps)
  show "(101 / 2 :: rat) \<notin> \<int>"
  proof
    assume "(101 / 2 :: rat) \<in> \<int>"
    then obtain z :: int where "(101 / 2 :: rat) = of_int z" by (auto elim: Ints_cases)
    then have "(of_int 101 :: rat) = of_int (2 * z)" by simp
    then have "(101 :: int) = 2 * z" by (simp only: of_int_eq_iff)
    then show False by presburger
  qed
qed

text \<open>
  Claim C4, amended. Every result that the normalizer returns has both confidences in
  the range from 0 to 100, for every input text; a confidence in the result need not be an
  integer.
\<close>

theorem result_confidence_in_range:
  assumes "responseNormalizer text = Inr r"
  shows "0 \<le> confidence (language r) \<and> confidence (language r) \<le> 100 \<and>
         0 \<le> confidence (accent r) \<and> confidence (accent r) \<le> 100"
proof -
  obtain v where "jsonParse (stripFence text) = Some v" and v: "validateAndClamp v = Inr r"
    using assms
    by (auto simp: responseNormalizer_def normalize_def catchAll_def
        split: option.splits sum.splits thrown.splits)
  obtain l a where
    r: "r = \<lparr>language = l\<lparr>confidence := clampConfidence (confidence l)\<rparr>,
              accent = a\<lparr>confidence := clampConfidence (confidence a)\<rparr>\<rparr>"
    using v by (auto simp: validateAndClamp_def split: sum.splits option.splits)
  have "0 \<le> clampConfidence x \<and> clampConfidence x \<le> 100" for x
    by (simp add: clampConfidence_def)
  then show ?thesis using r by simp
qed

theorem result_confidence_in_range_witness:
  "responseNormalizer (js ''{\"language\":{\"name\":\"a\",\"confidence\":1e3},\"accent\":{\"name\":\"b\",\"confidence\":-0.5}}'')
     = Inr \<lparr>language = \<lparr>name = js ''a'', confidence = 100\<rparr>,
            accent = \<lparr>name = js ''b'', confidence = 0\<rparr>\<rparr> \<and>
   (0 :: rat) \<le> confidence (language \<lparr>language = \<lparr>name = js ''a'', confidence = 100\<rparr>,
            accent = \<lparr>name = js ''b'', confidence = 0\<rparr>\<rparr>) \<and>
   confidence (accent \<lparr>language = \<lparr>name = js ''a'', confidence = 100\<rparr>,
            accent = \<lparr>name = js ''b'', confidence = 0\<rparr>\<rparr>) \<le> (100 :: rat)"
proof -
  have h: "responseNormalizer (js ''{\"language\":{\"name\":\"a\",\"confidence\":1e3},\"accent\":{\"name\":\"b\",\"confidence\":-0.5}}'')
     = Inr \<lparr>language = \<lparr>name = js ''a'', confidence = 100\<rparr>,
            accent = \<lparr>name = js ''b'', confidence = 0\<rparr>\<rparr>"
    by (simp add: eval_simps)
  show ?thesis using h result_confidence_in_range[OF h] by blast
qed

text \<open>
  Claim C5 fails on the code at the parsed value \<open>null\<close>: the validation reads
  \<open>parsedData.language\<close> first, which throws a \<open>TypeError\<close> on \<open>null\<close>, so the
  normalizer fails with that error and not with the error of the validation. (For every
  other parsed value the validation fails with its own error exactly when the value has
  not the shape, see \<open>shape_validation_non_null\<close>.)
\<close>

theorem null_payload_type_error:
  "jsonParse (stripFence (js ''null'')) = Some JNull \<and>
   responseNormalizer (js ''null'') = Inl (ApiCallFailed TypeError) \<and>
   responseNormalizer (js ''null'') \<noteq> Inl (ApiCallFailed invalidStructure)"
  by (simp add: eval_simps)

text \<open>
  Claim C6. When the de-fenced text is no JSON, the normalizer fails with the
  \<open>SyntaxError\<close> of the parser, wrapped by the handler of \<open>analyzeAudio\<close>; that
  failure is not the one of the validation.
\<close>

theorem parse_failure:
  assumes "jsonParse (stripFence text) = None"
  shows "responseNormalizer text = Inl (ApiCallFailed SyntaxError) \<and>
         responseNormalizer text \<noteq> Inl (ApiCallFailed invalidStructure)"
  using assms by (simp add: responseNormalizer_def normalize_def catchAll_def invalidStructure_def)

theorem parse_failure_witness:
  "jsonParse (stripFence (js ''{\"language\":{\"name\":\"English\"'')) = None \<and>
   (responseNormalizer (js ''{\"language\":{\"name\":\"English\"'') = Inl (ApiCallFailed SyntaxError) \<and>
    responseNormalizer (js ''{\"language\":{\"name\":\"English\"'') \<noteq> Inl (ApiCallFailed invalidStructure))"
proof -
  have h: "jsonParse (stripFence (js ''{\"language\":{\"name\":\"English\"'')) = None"
    by (simp add: eval_simps)
  show ?thesis using h parse_failure[OF h] by (rule conjI)
qed

section \<open>The recording controller: invariants and transitions\<close>



lemmas handler_defs = startRecording_def startRecordingResumed_def stopRecording_def
  processAudio_def onLoadEnd_def handleReset_def setRecordingState_def










lemma no_chunks_guard:
  assumes "0 < stoppingRecorders a" "audioChunks a = []"
  shows "recordingState (step RecorderStop a) = StateError \<and>
         error (step RecorderStop a) = Some (Text ''No audio was recorded. Please try again.'') \<and>
         reading (step RecorderStop a) = reading a \<and>
         providerCalls (step RecorderStop a) = providerCalls a"
  using assms by (simp add: processAudio_def setRecordingState_def)

text \<open>
  Claim C8 fails on the code for a recording of zero bytes that arrives as a chunk: the
  guard of \<open>processAudio\<close> counts the chunks, not their bytes. A recorder that is stopped
  delivers what it gathered in one \<open>dataavailable\<close> event, also when that is an empty
  blob, and the listener stores every blob. With the one empty chunk the session goes to
  \<open>processing\<close> without an error, and when the reader has finished, \<open>analyzeAudio\<close> is
  called with the empty audio, whatever the provider then replies. (With no chunk at all
  the guard works, see \<open>no_chunks_guard\<close>.)
\<close>

theorem empty_chunk_reaches_provider:
  "concat (audioChunks (run [ClickStart, MicSettled (MicGranted SetupOk), ClickStop,
                             DataAvailable []] initialApp)) = [] \<and>
   recordingState (run [ClickStart, MicSettled (MicGranted SetupOk), ClickStop, DataAvailable [],
                        RecorderStop] initialApp) = StateProcessing \<and>
   error (run [ClickStart, MicSettled (MicGranted SetupOk), ClickStop, DataAvailable [],
               RecorderStop] initialApp) = None \<and>
   providerCalls (run [ClickStart, MicSettled (MicGranted SetupOk), ClickStop, DataAvailable [],
                       RecorderStop, ReaderLoadEnd outcome] initialApp) = [[]]"
  by (cases "analyzeAudio outcome")
     (simp_all add: run_def initialApp_def handler_defs)

end
